theory Spec2Isabelle
  imports Main "HOL-Library.Multiset"
begin

section \<open>Data model\<close>

text \<open>
  The module \<^verbatim>\<open>tensornetwork/contractors/opt_einsum_paths/utils.py\<close> works on the
  objects of \<^verbatim>\<open>network_components\<close> and \<^verbatim>\<open>network\<close>. Python compares and hashes these
  objects by identity. Here an object's identity is a number (\<open>edge_id\<close>, \<open>node_id\<close>),
  and an edge names its endpoints by their \<open>node_id\<close>, which breaks the cycle between
  \<^verbatim>\<open>Node.edges\<close> and \<^verbatim>\<open>Edge.node1\<close>/\<^verbatim>\<open>Edge.node2\<close>.
\<close>

text \<open>
  Modelled from the spec: the class \<^verbatim>\<open>network_components.Edge\<close>. An edge has a
  dimension and one or two endpoints; \<open>node2\<close> is \<open>None\<close> for an edge with a single
  endpoint.
\<close>

record edge =
  edge_id :: nat
  node1 :: nat
  node2 :: "nat option"
  dimension :: nat

text \<open>
  Modelled from the spec: \<^verbatim>\<open>Edge.is_dangling\<close>. The dangling flag is true if the edge
  has only one endpoint.
\<close>

definition is_dangling :: "edge \<Rightarrow> bool" where
  "is_dangling e = (node2 e = None)"

text \<open>
  Modelled from the spec: the classes \<^verbatim>\<open>network_components.BaseNode\<close> and
  \<^verbatim>\<open>network_components.CopyNode\<close>. A node has an ordered collection of edges, a
  creation-order signature and a variant tag; \<open>is_copy n\<close> is
  \<^verbatim>\<open>isinstance(n, network_components.CopyNode)\<close>.
\<close>

record node =
  node_id :: nat
  signature :: int
  is_copy :: bool
  edges :: "edge list"

text \<open>
  Modelled from the spec: the class \<^verbatim>\<open>network.TensorNetwork\<close>. \<^verbatim>\<open>net.nodes_set\<close> is a Python
  set; the list gives the order in which the set is iterated. Statements that must not
  depend on that order are proved for every rearrangement of the list.
\<close>

record network =
  nodes_set :: "node list"

text \<open>
  Modelled from the spec: the network queries \<^verbatim>\<open>get_all_edges\<close> (the set of all edges of
  all nodes of the network) and \<^verbatim>\<open>get_all_nondangling\<close> (those of them that are not
  dangling).
\<close>

definition get_all_edges :: "network \<Rightarrow> edge set" where
  "get_all_edges net = set (concat (map edges (nodes_set net)))"

definition get_all_nondangling :: "network \<Rightarrow> edge set" where
  "get_all_nondangling net = {e \<in> get_all_edges net. \<not> is_dangling e}"

text \<open>The exceptions the module can raise or pass on.\<close>

datatype py_error = KeyError | AttributeError | OptimizerError

text \<open>
  \<^verbatim>\<open>Algorithm\<close>: the \<^verbatim>\<open>opt_einsum\<close> method, a function of the input sets, the output set
  and the size dictionary. An exception it raises is passed on by the caller.
\<close>

type_synonym path = "(int \<times> int) list"

type_synonym algorithm =
  "edge set list \<Rightarrow> edge set \<Rightarrow> (edge \<rightharpoonup> nat) \<Rightarrow> py_error + path"

section \<open>The helper functions\<close>

text \<open>
  \<^verbatim>\<open>return [i for j, i in enumerate(elems) if j not in indices]\<close>

  \<open>indices\<close> is a list of Python integers; \<open>j\<close> runs over the positions \<open>0, 1, ...\<close>.
\<close>

definition multi_remove :: "'a list \<Rightarrow> int list \<Rightarrow> 'a list" where
  "multi_remove elems indices =
     map snd (filter (\<lambda>(j, i). int j \<notin> set indices) (enumerate 0 elems))"

text \<open>
  \<^verbatim>\<open>for edge in node.edges: if not edge.is_dangling(): return edge\<close>, and \<^verbatim>\<open>return None\<close>
  after the loop.
\<close>

fun first_nondangling_of :: "edge list \<Rightarrow> edge option" where
  "first_nondangling_of [] = None"
| "first_nondangling_of (edge # rest) =
     (if \<not> is_dangling edge then Some edge else first_nondangling_of rest)"

definition get_first_nondangling :: "node \<Rightarrow> edge option" where
  "get_first_nondangling n = first_nondangling_of (edges n)"

section \<open>The path request\<close>

text \<open>
  \<^verbatim>\<open>copy_nodes\<close>: a dictionary in insertion order, from each CopyNode of the network to
  its first non-dangling edge.
\<close>

definition copy_nodes :: "network \<Rightarrow> (node \<times> edge option) list" where
  "copy_nodes net =
     map (\<lambda>n. (n, get_first_nondangling n)) (filter is_copy (nodes_set net))"

text \<open>
  \<^verbatim>\<open>sorted(net.nodes_set - set(copy_nodes.keys()), key = lambda n: n.signature)\<close>.
  Python's \<^verbatim>\<open>sorted\<close> is stable, as \<open>sort_key\<close> is.
\<close>

definition sorted_nodes :: "network \<Rightarrow> node list" where
  "sorted_nodes net =
     sort_key signature
       (filter (\<lambda>n. n \<notin> fst ` set (copy_nodes net)) (nodes_set net))"

text \<open>
  The values stored in \<^verbatim>\<open>copy_to_nodes\<close>. The literal \<^verbatim>\<open>{}\<close> creates an empty
  dictionary (\<open>PyDict\<close>; nothing is ever stored in it); a set display such as \<^verbatim>\<open>{copy}\<close>
  creates a set. A dictionary has no method \<^verbatim>\<open>add\<close>.
\<close>

datatype py_container = PyDict | PySet "nat set"

fun py_add :: "py_container \<Rightarrow> nat \<Rightarrow> py_error + py_container" where
  "py_add PyDict x = Inl AttributeError"
| "py_add (PySet s) x = Inr (PySet (insert x s))"

text \<open>
  \<^verbatim>\<open>s.pop()\<close> on a set given by the list of its elements: \<^verbatim>\<open>KeyError\<close> on the empty set.
  On a set of two elements Python may return either; the model returns the first. The
  only caller raises in its next statement whatever was returned.
\<close>

fun py_pop :: "nat list \<Rightarrow> py_error + nat" where
  "py_pop [] = Inl KeyError"
| "py_pop (x # xs) = Inr x"

record maps =
  edge_map :: "edge \<rightharpoonup> edge option"
  node_to_copies :: "nat \<rightharpoonup> nat set"
  copy_to_nodes :: "nat \<rightharpoonup> py_container"

text \<open>
  The body of the inner loop, for one edge \<open>e\<close> of the copy node \<open>copy\<close>:
  \<^verbatim>\<open>
    if not e.is_dangling():
      edge_map[e] = edge
      node = ({e.node1, e.node2} - {copy}).pop()
      copy_to_nodes[copy].add(node)
      if node in node_to_copies:
        node_to_copies[node].add(copy)
      else:
        node_to_copies[node] = {copy}
  \<close>
  The test \<^verbatim>\<open>e.is_dangling()\<close> is the case distinction on \<open>node2 e\<close>: the edge is
  dangling when \<open>node2 e\<close> is \<open>None\<close>, and otherwise \<open>node2 e\<close> is its second endpoint.
  The keys and members of \<^verbatim>\<open>node_to_copies\<close> and \<^verbatim>\<open>copy_to_nodes\<close> are nodes, given by
  their \<open>node_id\<close>. A lookup of a key that a dictionary does not hold raises \<^verbatim>\<open>KeyError\<close>.
\<close>

definition visit_edge :: "node \<Rightarrow> edge option \<Rightarrow> edge \<Rightarrow> maps \<Rightarrow> py_error + maps" where
  "visit_edge copy edge e st =
     (case node2 e of
        None \<Rightarrow> Inr st
      | Some n2 \<Rightarrow>
          (let st1 = st\<lparr>edge_map := (edge_map st)(e \<mapsto> edge)\<rparr> in
           case py_pop (filter (\<lambda>n. n \<noteq> node_id copy) (remdups [node1 e, n2])) of
             Inl err \<Rightarrow> Inl err
           | Inr n \<Rightarrow>
               (case copy_to_nodes st1 (node_id copy) of
                  None \<Rightarrow> Inl KeyError
                | Some c \<Rightarrow>
                    (case py_add c n of
                       Inl err \<Rightarrow> Inl err
                     | Inr c' \<Rightarrow>
                         (let st2 = st1\<lparr>copy_to_nodes :=
                                          (copy_to_nodes st1)(node_id copy \<mapsto> c')\<rparr> in
                          case node_to_copies st2 n of
                            Some s \<Rightarrow>
                              Inr (st2\<lparr>node_to_copies :=
                                         (node_to_copies st2)(n \<mapsto> insert (node_id copy) s)\<rparr>)
                          | None \<Rightarrow>
                              Inr (st2\<lparr>node_to_copies :=
                                         (node_to_copies st2)(n \<mapsto> {node_id copy})\<rparr>))))))"

text \<open>\<^verbatim>\<open>for e in copy.edges: ...\<close>; an exception ends the loop.\<close>

fun for_edges :: "node \<Rightarrow> edge option \<Rightarrow> edge list \<Rightarrow> maps \<Rightarrow> py_error + maps" where
  "for_edges copy edge [] st = Inr st"
| "for_edges copy edge (e # es) st =
     (case visit_edge copy edge e st of
        Inl err \<Rightarrow> Inl err
      | Inr st' \<Rightarrow> for_edges copy edge es st')"

text \<open>
  \<^verbatim>\<open>for copy, edge in copy_nodes.items(): copy_to_nodes[copy] = {}; for e in copy.edges: ...\<close>
\<close>

fun for_copies :: "(node \<times> edge option) list \<Rightarrow> maps \<Rightarrow> py_error + maps" where
  "for_copies [] st = Inr st"
| "for_copies ((copy, edge) # rest) st =
     (case for_edges copy edge (edges copy)
             (st\<lparr>copy_to_nodes := (copy_to_nodes st)(node_id copy \<mapsto> PyDict)\<rparr>) of
        Inl err \<Rightarrow> Inl err
      | Inr st' \<Rightarrow> for_copies rest st')"

text \<open>\<^verbatim>\<open>edge_map = {}\<close>, \<^verbatim>\<open>node_to_copies = {}\<close>, \<^verbatim>\<open>copy_to_nodes = {}\<close>.\<close>

definition empty_maps :: maps where
  "empty_maps = \<lparr>edge_map = Map.empty, node_to_copies = Map.empty, copy_to_nodes = Map.empty\<rparr>"

text \<open>\<^verbatim>\<open>input_sets = [set(node.edges) for node in sorted_nodes]\<close>\<close>

definition input_sets :: "network \<Rightarrow> edge set list" where
  "input_sets net = map (\<lambda>n. set (edges n)) (sorted_nodes net)"

text \<open>\<^verbatim>\<open>output_set = net.get_all_edges() - net.get_all_nondangling()\<close>\<close>

definition output_set :: "network \<Rightarrow> edge set" where
  "output_set net = get_all_edges net - get_all_nondangling net"

text \<open>\<^verbatim>\<open>size_dict = {edge: edge.dimension for edge in net.get_all_edges()}\<close>\<close>

definition size_dict :: "network \<Rightarrow> (edge \<rightharpoonup> nat)" where
  "size_dict net = (\<lambda>e. if e \<in> get_all_edges net then Some (dimension e) else None)"

text \<open>
  \<^verbatim>\<open>get_path\<close>: the dictionary of copy nodes, the sorted ordinary nodes, the loop over
  the copy nodes, then
  \<^verbatim>\<open>return algorithm(input_sets, output_set, size_dict), sorted_nodes\<close>.
\<close>

definition get_path :: "network \<Rightarrow> algorithm \<Rightarrow> py_error + (path \<times> node list)" where
  "get_path net algorithm =
     (case for_copies (copy_nodes net) empty_maps of
        Inl err \<Rightarrow> Inl err
      | Inr st \<Rightarrow>
          (case algorithm (input_sets net) (output_set net) (size_dict net) of
             Inl err \<Rightarrow> Inl err
           | Inr p \<Rightarrow> Inr (p, sorted_nodes net)))"


section \<open>Notions used in the statements\<close>

text \<open>The ordinary nodes of a network, in the order of \<open>nodes_set\<close>: the nodes that are not CopyNodes.\<close>

definition ordinary_nodes :: "network \<Rightarrow> node list" where
  "ordinary_nodes net = filter (\<lambda>n. \<not> is_copy n) (nodes_set net)"

text \<open>Every edge of every CopyNode of the network is dangling.\<close>

definition isolated_copies :: "network \<Rightarrow> bool" where
  "isolated_copies net =
     list_all (\<lambda>n. list_all is_dangling (edges n)) (filter is_copy (nodes_set net))"

text \<open>
  An algorithm to run \<open>get_path\<close> with: it contracts the first two tensors of the working
  list until one is left, whatever the edges are.
\<close>

definition left_to_right :: algorithm where
  "left_to_right ins out sz = Inr (replicate (length ins - 1) (0, 1))"

section \<open>Example networks\<close>

text \<open>
  One CopyNode \<open>X\<close> joined to the ordinary nodes \<open>P\<close>, \<open>Q\<close>, \<open>R\<close> by three distinct
  non-dangling edges.
\<close>

definition edge_PX :: edge where
  "edge_PX = \<lparr>edge_id = 0, node1 = 0, node2 = Some 3, dimension = 2\<rparr>"

definition edge_QX :: edge where
  "edge_QX = \<lparr>edge_id = 1, node1 = 1, node2 = Some 3, dimension = 2\<rparr>"

definition edge_RX :: edge where
  "edge_RX = \<lparr>edge_id = 2, node1 = 2, node2 = Some 3, dimension = 2\<rparr>"

definition node_P :: node where
  "node_P = \<lparr>node_id = 0, signature = 0, is_copy = False, edges = [edge_PX]\<rparr>"

definition node_Q :: node where
  "node_Q = \<lparr>node_id = 1, signature = 1, is_copy = False, edges = [edge_QX]\<rparr>"

definition node_R :: node where
  "node_R = \<lparr>node_id = 2, signature = 2, is_copy = False, edges = [edge_RX]\<rparr>"

definition copy_X :: node where
  "copy_X = \<lparr>node_id = 3, signature = 3, is_copy = True, edges = [edge_PX, edge_QX, edge_RX]\<rparr>"

definition hyperedge_net :: network where
  "hyperedge_net = \<lparr>nodes_set = [node_P, node_Q, node_R, copy_X]\<rparr>"

text \<open>
  An ordinary node \<open>A\<close> and a CopyNode \<open>Y\<close> with a dangling edge and exactly one
  non-dangling edge, which joins it to \<open>A\<close>.
\<close>

definition edge_Y_out :: edge where
  "edge_Y_out = \<lparr>edge_id = 0, node1 = 1, node2 = None, dimension = 2\<rparr>"

definition edge_AY :: edge where
  "edge_AY = \<lparr>edge_id = 1, node1 = 0, node2 = Some 1, dimension = 2\<rparr>"

definition node_A :: node where
  "node_A = \<lparr>node_id = 0, signature = 0, is_copy = False, edges = [edge_AY]\<rparr>"

definition copy_Y :: node where
  "copy_Y = \<lparr>node_id = 1, signature = 1, is_copy = True, edges = [edge_Y_out, edge_AY]\<rparr>"

definition degree_one_net :: network where
  "degree_one_net = \<lparr>nodes_set = [node_A, copy_Y]\<rparr>"

text \<open>
  A CopyNode \<open>Z\<close> all of whose edges are dangling, alone and beside an ordinary node
  \<open>D\<close> that has one dangling edge.
\<close>

definition edge_Z_out :: edge where
  "edge_Z_out = \<lparr>edge_id = 2, node1 = 2, node2 = None, dimension = 2\<rparr>"

definition copy_Z :: node where
  "copy_Z = \<lparr>node_id = 2, signature = 2, is_copy = True, edges = [edge_Z_out]\<rparr>"

definition copy_only_net :: network where
  "copy_only_net = \<lparr>nodes_set = [copy_Z]\<rparr>"




definition empty_net :: network where
  "empty_net = \<lparr>nodes_set = []\<rparr>"

text \<open>
  Three ordinary nodes \<open>A\<close>, \<open>B\<close>, \<open>C\<close> joined pairwise, with one dangling edge on \<open>C\<close>;
  the same nodes registered in another order.
\<close>

definition edge_AB :: edge where
  "edge_AB = \<lparr>edge_id = 0, node1 = 0, node2 = Some 1, dimension = 2\<rparr>"

definition edge_BC :: edge where
  "edge_BC = \<lparr>edge_id = 1, node1 = 1, node2 = Some 2, dimension = 3\<rparr>"

definition edge_AC :: edge where
  "edge_AC = \<lparr>edge_id = 2, node1 = 0, node2 = Some 2, dimension = 4\<rparr>"

definition edge_C_out :: edge where
  "edge_C_out = \<lparr>edge_id = 3, node1 = 2, node2 = None, dimension = 5\<rparr>"

definition tri_A :: node where
  "tri_A = \<lparr>node_id = 0, signature = 0, is_copy = False, edges = [edge_AB, edge_AC]\<rparr>"

definition tri_B :: node where
  "tri_B = \<lparr>node_id = 1, signature = 1, is_copy = False, edges = [edge_AB, edge_BC]\<rparr>"

definition tri_C :: node where
  "tri_C = \<lparr>node_id = 2, signature = 2, is_copy = False, edges = [edge_AC, edge_BC, edge_C_out]\<rparr>"

definition triangle_net :: network where
  "triangle_net = \<lparr>nodes_set = [tri_A, tri_B, tri_C]\<rparr>"

definition triangle_net' :: network where
  "triangle_net' = \<lparr>nodes_set = [tri_C, tri_A, tri_B]\<rparr>"

section \<open>The helper functions: properties\<close>


lemma enumerate_filter_nths:
  "map snd (filter (\<lambda>(j, i). P j) (enumerate n xs)) = nths xs {j. P (j + n)}"
proof (induction xs arbitrary: n)
  case Nil
  then show ?case by simp
next
  case (Cons x xs)
  have "{j. P (Suc j + n)} = {j. Suc j \<in> {j. P (j + n)}}" by simp
  with Cons[of "Suc n"] show ?case by (simp add: nths_Cons)
qed

lemma multi_remove_nths: "multi_remove elems indices = nths elems {j. int j \<notin> set indices}"
  unfolding multi_remove_def using enumerate_filter_nths[of "\<lambda>j. int j \<notin> set indices" 0 elems] by simp


lemma first_nondangling_of_Some:
  "first_nondangling_of es = Some e \<longleftrightarrow>
     (\<exists>pre post. es = pre @ e # post \<and> (\<forall>x \<in> set pre. is_dangling x) \<and> \<not> is_dangling e)"
proof (induction es)
  case Nil
  then show ?case by simp
next
  case (Cons a es)
  show ?case
  proof (cases "is_dangling a")
    case True
    have "(\<exists>pre post. a # es = pre @ e # post \<and> (\<forall>x \<in> set pre. is_dangling x) \<and> \<not> is_dangling e)
        \<longleftrightarrow> (\<exists>pre post. es = pre @ e # post \<and> (\<forall>x \<in> set pre. is_dangling x) \<and> \<not> is_dangling e)"
      (is "?L \<longleftrightarrow> ?R")
    proof
      assume ?L
      then obtain pre post where h: "a # es = pre @ e # post" "\<forall>x \<in> set pre. is_dangling x" "\<not> is_dangling e"
        by blast
      with True obtain pre' where "pre = a # pre'" by (cases pre) auto
      with h show ?R by auto
    next
      assume ?R
      then obtain pre post where h: "es = pre @ e # post" "\<forall>x \<in> set pre. is_dangling x" "\<not> is_dangling e"
        by blast
      then have "a # es = (a # pre) @ e # post \<and> (\<forall>x \<in> set (a # pre). is_dangling x)" using True by simp
      with h(3) show ?L by blast
    qed
    with True Cons show ?thesis by simp
  next
    case False
    have "(\<exists>pre post. a # es = pre @ e # post \<and> (\<forall>x \<in> set pre. is_dangling x) \<and> \<not> is_dangling e)
        \<longleftrightarrow> a = e"
    proof
      assume "\<exists>pre post. a # es = pre @ e # post \<and> (\<forall>x \<in> set pre. is_dangling x) \<and> \<not> is_dangling e"
      then obtain pre post where h: "a # es = pre @ e # post" "\<forall>x \<in> set pre. is_dangling x"
        by blast
      with False show "a = e" by (cases pre) auto
    next
      assume "a = e"
      with False have "a # es = [] @ e # es \<and> (\<forall>x \<in> set []. is_dangling x) \<and> \<not> is_dangling e" by simp
      then show "\<exists>pre post. a # es = pre @ e # post \<and> (\<forall>x \<in> set pre. is_dangling x) \<and> \<not> is_dangling e" by blast
    qed
    with False show ?thesis by simp
  qed
qed

lemma first_nondangling_of_None:
  "first_nondangling_of es = None \<longleftrightarrow> (\<forall>x \<in> set es. is_dangling x)"
  by (induction es) auto


section \<open>The loop over the copy nodes\<close>

lemma visit_edge_dangling: "is_dangling e \<Longrightarrow> visit_edge copy edge e st = Inr st"
  by (simp add: visit_edge_def is_dangling_def)

lemma visit_edge_nondangling:
  assumes "\<not> is_dangling e" and "copy_to_nodes st (node_id copy) = Some PyDict"
  shows "visit_edge copy edge e st = Inl KeyError \<or> visit_edge copy edge e st = Inl AttributeError"
proof -
  from assms(1) obtain n2 where n2: "node2 e = Some n2"
    by (auto simp: is_dangling_def)
  show ?thesis
  proof (cases "py_pop (filter (\<lambda>n. n \<noteq> node_id copy) (remdups [node1 e, n2]))")
    case (Inl err)
    then have "err = KeyError"
      by (cases "filter (\<lambda>n. n \<noteq> node_id copy) (remdups [node1 e, n2])") auto
    with Inl n2 show ?thesis by (simp add: visit_edge_def)
  next
    case (Inr n)
    with n2 assms(2) show ?thesis by (simp add: visit_edge_def)
  qed
qed

lemma for_edges_dangling:
  "list_all is_dangling es \<Longrightarrow> for_edges copy edge es st = Inr st"
  by (induction es) (simp_all add: visit_edge_dangling)

lemma for_edges_nondangling:
  assumes "\<not> list_all is_dangling es" and "copy_to_nodes st (node_id copy) = Some PyDict"
  shows "for_edges copy edge es st = Inl KeyError \<or> for_edges copy edge es st = Inl AttributeError"
  using assms
proof (induction es)
  case Nil
  then show ?case by simp
next
  case (Cons e es)
  show ?case
  proof (cases "is_dangling e")
    case True
    with Cons show ?thesis by (simp add: visit_edge_dangling)
  next
    case False
    from visit_edge_nondangling[OF False Cons.prems(2), of edge] show ?thesis by auto
  qed
qed

lemma for_copies_isolated:
  "list_all (\<lambda>n. list_all is_dangling (edges n)) (map fst cs) \<Longrightarrow>
   for_copies cs st =
     Inr (st\<lparr>copy_to_nodes :=
               (\<lambda>i. if i \<in> node_id ` fst ` set cs then Some PyDict else copy_to_nodes st i)\<rparr>)"
proof (induction cs arbitrary: st)
  case Nil
  then show ?case by simp
next
  case (Cons a cs)
  obtain copy edge where a: "a = (copy, edge)" by (cases a)
  have dang: "list_all is_dangling (edges copy)" using Cons.prems a by simp
  have rest: "list_all (\<lambda>n. list_all is_dangling (edges n)) (map fst cs)" using Cons.prems by simp
  let ?st = "st\<lparr>copy_to_nodes := (copy_to_nodes st)(node_id copy \<mapsto> PyDict)\<rparr>"
  have "(\<lambda>i. if i \<in> node_id ` fst ` set cs then Some PyDict else copy_to_nodes ?st i)
      = (\<lambda>i. if i \<in> node_id ` fst ` set (a # cs) then Some PyDict else copy_to_nodes st i)"
    using a by auto
  then have "?st\<lparr>copy_to_nodes :=
                 (\<lambda>i. if i \<in> node_id ` fst ` set cs then Some PyDict else copy_to_nodes ?st i)\<rparr>
           = st\<lparr>copy_to_nodes :=
                 (\<lambda>i. if i \<in> node_id ` fst ` set (a # cs) then Some PyDict else copy_to_nodes st i)\<rparr>"
    by simp
  moreover have "for_copies (a # cs) st = for_copies cs ?st"
    using a by (simp add: for_edges_dangling[OF dang])
  ultimately show ?case
    using Cons.IH[OF rest, of ?st] by simp
qed

lemma for_copies_raises:
  "\<not> list_all (\<lambda>n. list_all is_dangling (edges n)) (map fst cs) \<Longrightarrow>
   for_copies cs st = Inl KeyError \<or> for_copies cs st = Inl AttributeError"
proof (induction cs arbitrary: st)
  case Nil
  then show ?case by simp
next
  case (Cons a cs)
  obtain copy edge where a: "a = (copy, edge)" by (cases a)
  show ?case
  proof (cases "list_all is_dangling (edges copy)")
    case True
    with Cons.prems a have "\<not> list_all (\<lambda>n. list_all is_dangling (edges n)) (map fst cs)" by simp
    from Cons.IH[OF this] a True show ?thesis by (simp add: for_edges_dangling)
  next
    case False
    from for_edges_nondangling[OF False, of "st\<lparr>copy_to_nodes := (copy_to_nodes st)(node_id copy \<mapsto> PyDict)\<rparr>" copy edge]
    show ?thesis using a by auto
  qed
qed


lemma map_fst_copy_nodes: "map fst (copy_nodes net) = filter is_copy (nodes_set net)"
  by (simp add: copy_nodes_def comp_def)

lemma get_path_isolated:
  assumes "isolated_copies net"
  shows "get_path net algorithm =
     (case algorithm (input_sets net) (output_set net) (size_dict net) of
        Inl err \<Rightarrow> Inl err
      | Inr p \<Rightarrow> Inr (p, sorted_nodes net))"
proof -
  from assms have "list_all (\<lambda>n. list_all is_dangling (edges n)) (map fst (copy_nodes net))"
    by (simp add: isolated_copies_def map_fst_copy_nodes)
  from for_copies_isolated[OF this] show ?thesis by (simp add: get_path_def)
qed

lemma get_path_raises:
  assumes "\<not> isolated_copies net"
  shows "get_path net algorithm = Inl KeyError \<or> get_path net algorithm = Inl AttributeError"
proof -
  from assms have "\<not> list_all (\<lambda>n. list_all is_dangling (edges n)) (map fst (copy_nodes net))"
    by (simp add: isolated_copies_def map_fst_copy_nodes)
  from for_copies_raises[OF this, of empty_maps] show ?thesis by (auto simp: get_path_def)
qed

lemma sorted_nodes_ordinary: "sorted_nodes net = sort_key signature (ordinary_nodes net)"
proof -
  have "filter (\<lambda>n. n \<notin> fst ` set (copy_nodes net)) (nodes_set net)
      = filter (\<lambda>n. \<not> is_copy n) (nodes_set net)"
    by (rule filter_cong) (auto simp: copy_nodes_def image_iff)
  then show ?thesis by (simp add: sorted_nodes_def ordinary_nodes_def)
qed

section \<open>Rearranging the node set\<close>

lemma sorted_nodes_perm:
  assumes "mset (nodes_set net') = mset (nodes_set net)"
    and "inj_on signature (set (ordinary_nodes net))"
  shows "sorted_nodes net' = sorted_nodes net"
proof -
  have "mset (ordinary_nodes net) = mset (ordinary_nodes net')"
    using assms(1) by (simp add: ordinary_nodes_def)
  from sort_key_eq_sort_key[OF this assms(2)] show ?thesis
    by (simp add: sorted_nodes_ordinary)
qed

lemma isolated_copies_perm:
  assumes "mset (nodes_set net') = mset (nodes_set net)"
  shows "isolated_copies net' = isolated_copies net"
proof -
  from assms have "set (nodes_set net') = set (nodes_set net)" by (rule mset_eq_setD)
  then show ?thesis by (simp add: isolated_copies_def list_all_iff)
qed

lemma get_all_edges_perm:
  assumes "mset (nodes_set net') = mset (nodes_set net)"
  shows "get_all_edges net' = get_all_edges net"
proof -
  from assms have "set (nodes_set net') = set (nodes_set net)" by (rule mset_eq_setD)
  then show ?thesis by (simp add: get_all_edges_def)
qed

lemma nths_cong_set:
  assumes "{j. j < length xs \<and> j \<in> A} = {j. j < length xs \<and> j \<in> B}"
  shows "nths xs A = nths xs B"
proof -
  have "filter (\<lambda>p. snd p \<in> A) (zip xs [0..<length xs]) = filter (\<lambda>p. snd p \<in> B) (zip xs [0..<length xs])"
  proof (rule filter_cong[OF refl])
    fix p assume p: "p \<in> set (zip xs [0..<length xs])"
    obtain a b where ab: "p = (a, b)" by (cases p)
    with p have "b \<in> set [0..<length xs]" by (auto dest: set_zip_rightD)
    then have "snd p < length xs" using ab by simp
    with assms show "(snd p \<in> A) = (snd p \<in> B)" by blast
  qed
  then show ?thesis by (simp add: nths_def)
qed

section \<open>Facts about the example networks\<close>

lemma triangle_sorted_nodes: "sorted_nodes triangle_net = [tri_A, tri_B, tri_C]"
  by (simp add: sorted_nodes_ordinary ordinary_nodes_def triangle_net_def
      tri_A_def tri_B_def tri_C_def)

lemma triangle_isolated: "isolated_copies triangle_net"
  by (simp add: isolated_copies_def triangle_net_def tri_A_def tri_B_def tri_C_def)

lemma triangle_get_path:
  "get_path triangle_net left_to_right = Inr ([(0, 1), (0, 1)], [tri_A, tri_B, tri_C])"
  by (simp add: get_path_isolated[OF triangle_isolated] left_to_right_def input_sets_def
      triangle_sorted_nodes)

lemma triangle_perm: "mset (nodes_set triangle_net') = mset (nodes_set triangle_net)"
  by (simp add: triangle_net_def triangle_net'_def)

lemma triangle_signatures: "inj_on signature (set (ordinary_nodes triangle_net))"
  by (simp add: ordinary_nodes_def triangle_net_def tri_A_def tri_B_def tri_C_def)

lemma triangle_all_edges:
  "get_all_edges triangle_net = {edge_AB, edge_AC, edge_BC, edge_C_out}"
  by (auto simp: get_all_edges_def triangle_net_def tri_A_def tri_B_def tri_C_def)

lemma triangle_dangling:
  "is_dangling edge_C_out" "\<not> is_dangling edge_AB" "\<not> is_dangling edge_AC"
  "\<not> is_dangling edge_BC"
  by (simp_all add: is_dangling_def edge_AB_def edge_AC_def edge_BC_def edge_C_out_def)

lemma triangle_output_set: "output_set triangle_net = {edge_C_out}"
  using triangle_dangling
  by (auto simp: output_set_def get_all_nondangling_def triangle_all_edges)

section \<open>The claims\<close>

subsection \<open>C1: input sets and the edge-identity map\<close>

text \<open>
  C1 says that the input edge-set of each ordinary node has every edge of the
  edge-identity map replaced by its representative, so that for one CopyNode \<open>X\<close> joined
  to \<open>P\<close>, \<open>Q\<close>, \<open>R\<close> by three distinct non-dangling edges the three input sets hold the
  one representative edge. On that network \<^verbatim>\<open>get_path\<close> raises \<^verbatim>\<open>AttributeError\<close> in the
  loop over the copy nodes (\<^verbatim>\<open>copy_to_nodes[copy]\<close> is the dictionary \<^verbatim>\<open>{}\<close>, which has no
  \<^verbatim>\<open>add\<close>), and the expression for \<^verbatim>\<open>input_sets\<close> does not consult \<^verbatim>\<open>edge_map\<close>: it gives
  the three independent edges.
\<close>

theorem hyperedge_input_sets_not_collapsed:
  "get_path hyperedge_net algorithm = Inl AttributeError \<and>
   input_sets hyperedge_net = [{edge_PX}, {edge_QX}, {edge_RX}]"
  by (simp add: get_path_def copy_nodes_def get_first_nondangling_def is_dangling_def
      visit_edge_def empty_maps_def sorted_nodes_def input_sets_def
      hyperedge_net_def node_P_def node_Q_def node_R_def copy_X_def
      edge_PX_def edge_QX_def edge_RX_def)

subsection \<open>C2: a CopyNode with exactly one non-dangling edge\<close>

text \<open>
  C2 says that \<^verbatim>\<open>get_path\<close> returns normally on every network that has a CopyNode with
  exactly one non-dangling edge. On the network of the ordinary node \<open>A\<close> and the
  CopyNode \<open>Y\<close>, whose edges are one dangling edge and the edge to \<open>A\<close>, the loop stores
  \<^verbatim>\<open>edge_map[e] = edge\<close>, pops \<open>A\<close> and then raises \<^verbatim>\<open>AttributeError\<close> at
  \<^verbatim>\<open>copy_to_nodes[copy].add(node)\<close>, whatever the algorithm is.
\<close>

theorem degree_one_copy_raises:
  "get_path degree_one_net algorithm = Inl AttributeError"
  by (simp add: get_path_def copy_nodes_def get_first_nondangling_def is_dangling_def
      visit_edge_def empty_maps_def degree_one_net_def node_A_def copy_Y_def
      edge_Y_out_def edge_AY_def)

subsection \<open>C3: a network without ordinary nodes\<close>

text \<open>
  C3 says that \<^verbatim>\<open>get_path\<close> fails with a domain error on a network without ordinary
  nodes. The function has no such check. On the empty network it calls the algorithm
  and returns its path with the empty node list.
\<close>

theorem empty_network_returns:
  "get_path empty_net left_to_right = Inr ([], [])"
  by (simp add: get_path_def copy_nodes_def empty_maps_def sorted_nodes_def input_sets_def
      empty_net_def left_to_right_def)

text \<open>
  C3, as amended: on a network without ordinary nodes whose CopyNodes have only dangling
  edges, \<^verbatim>\<open>get_path\<close> raises no error of its own. It calls the algorithm with the empty
  list of input sets, and returns the algorithm's path paired with the empty node list,
  or passes on the exception of the algorithm.
\<close>

theorem get_path_no_ordinary_nodes:
  assumes "ordinary_nodes net = []" and "isolated_copies net"
  shows "get_path net algorithm =
     (case algorithm [] (output_set net) (size_dict net) of
        Inl err \<Rightarrow> Inl err
      | Inr p \<Rightarrow> Inr (p, []))"
proof -
  from assms(1) have "sorted_nodes net = []"
    by (simp add: sorted_nodes_ordinary)
  then show ?thesis
    by (simp add: get_path_isolated[OF assms(2)] input_sets_def split: sum.splits)
qed

theorem get_path_no_ordinary_nodes_witness:
  "ordinary_nodes copy_only_net = [] \<and> isolated_copies copy_only_net \<and>
   get_path copy_only_net left_to_right = Inr ([], [])"
proof -
  have h1: "ordinary_nodes copy_only_net = []"
    by (simp add: ordinary_nodes_def copy_only_net_def copy_Z_def)
  have h2: "isolated_copies copy_only_net"
    by (simp add: isolated_copies_def copy_only_net_def copy_Z_def edge_Z_out_def
        is_dangling_def)
  from get_path_no_ordinary_nodes[OF h1 h2, of left_to_right] h1 h2
  show ?thesis by (simp add: left_to_right_def)
qed

subsection \<open>C4: the edge-identity map\<close>

text \<open>
  C4 says that in the edge-identity map built by \<^verbatim>\<open>get_path\<close> every non-dangling edge
  of a CopyNode is a key, mapped to the representative of that CopyNode. For the
  CopyNode \<open>X\<close> with the three non-dangling edges to \<open>P\<close>, \<open>Q\<close>, \<open>R\<close> the loop that builds
  the map raises \<^verbatim>\<open>AttributeError\<close> while it visits the first of them: the body of the
  inner loop, run on that edge, raises, and so does the whole loop. No map is left, and
  the edges to \<open>Q\<close> and \<open>R\<close> are never stored.
\<close>

theorem hyperedge_edge_map_not_built:
  "visit_edge copy_X (Some edge_PX) edge_PX
     (empty_maps\<lparr>copy_to_nodes := (copy_to_nodes empty_maps)(node_id copy_X \<mapsto> PyDict)\<rparr>)
     = Inl AttributeError \<and>
   for_copies (copy_nodes hyperedge_net) empty_maps = Inl AttributeError"
  by (simp add: copy_nodes_def get_first_nondangling_def is_dangling_def
      visit_edge_def empty_maps_def hyperedge_net_def node_P_def node_Q_def node_R_def
      copy_X_def edge_PX_def edge_QX_def edge_RX_def)

subsection \<open>C5: the output edge-set\<close>

text \<open>
  C5: the output edge-set computed by \<^verbatim>\<open>get_path\<close> is exactly the set of the dangling
  edges of the network: it contains every dangling edge and no non-dangling edge.
  Whenever \<^verbatim>\<open>get_path\<close> returns a path, the path is what the algorithm returned for that
  output set.
\<close>

theorem output_set_dangling:
  "output_set net = {e \<in> get_all_edges net. is_dangling e} \<and>
   (\<forall>p ns. get_path net algorithm = Inr (p, ns) \<longrightarrow>
      algorithm (input_sets net) {e \<in> get_all_edges net. is_dangling e} (size_dict net)
        = Inr p)"
proof -
  have eq: "output_set net = {e \<in> get_all_edges net. is_dangling e}"
    by (auto simp: output_set_def get_all_nondangling_def)
  have "algorithm (input_sets net) (output_set net) (size_dict net) = Inr p"
    if "get_path net algorithm = Inr (p, ns)" for p ns
    using that by (auto simp: get_path_def split: sum.splits)
  with eq show ?thesis by simp
qed

theorem output_set_dangling_witness:
  "output_set triangle_net = {edge_C_out} \<and>
   {e \<in> get_all_edges triangle_net. is_dangling e} = {edge_C_out} \<and>
   get_path triangle_net left_to_right = Inr ([(0, 1), (0, 1)], [tri_A, tri_B, tri_C]) \<and>
   left_to_right (input_sets triangle_net) {edge_C_out} (size_dict triangle_net)
     = Inr [(0, 1), (0, 1)]"
proof -
  from output_set_dangling[of triangle_net left_to_right]
    triangle_get_path triangle_output_set
  show ?thesis by simp
qed

subsection \<open>C6: the ordered node list\<close>

text \<open>
  C6: the node list returned by \<^verbatim>\<open>get_path\<close> is \<open>sorted_nodes\<close>, which consists of the
  ordinary nodes of the network and ascends by signature. The signatures being unique,
  as the data model has them, the list is the same for every order in which the same
  nodes are registered.
\<close>

theorem sorted_nodes_by_signature:
  "sorted (map signature (sorted_nodes net)) \<and>
   mset (sorted_nodes net) = mset (ordinary_nodes net) \<and>
   (\<forall>p ns. get_path net algorithm = Inr (p, ns) \<longrightarrow> ns = sorted_nodes net) \<and>
   (\<forall>net'. mset (nodes_set net') = mset (nodes_set net) \<and>
           inj_on signature (set (ordinary_nodes net)) \<longrightarrow>
           sorted_nodes net' = sorted_nodes net)"
proof -
  have "sorted (map signature (sorted_nodes net))"
    by (simp add: sorted_nodes_ordinary)
  moreover have "mset (sorted_nodes net) = mset (ordinary_nodes net)"
    by (simp add: sorted_nodes_ordinary)
  moreover have "ns = sorted_nodes net" if "get_path net algorithm = Inr (p, ns)" for p ns
    using that by (auto simp: get_path_def split: sum.splits)
  ultimately show ?thesis using sorted_nodes_perm by blast
qed

theorem sorted_nodes_by_signature_witness:
  "mset (nodes_set triangle_net') = mset (nodes_set triangle_net) \<and>
   inj_on signature (set (ordinary_nodes triangle_net)) \<and>
   get_path triangle_net left_to_right = Inr ([(0, 1), (0, 1)], [tri_A, tri_B, tri_C]) \<and>
   sorted_nodes triangle_net = [tri_A, tri_B, tri_C] \<and>
   sorted_nodes triangle_net' = [tri_A, tri_B, tri_C]"
proof -
  note h1 = triangle_perm and h2 = triangle_signatures and gp = triangle_get_path
  from sorted_nodes_by_signature[of triangle_net left_to_right] gp
  have a: "sorted_nodes triangle_net = [tri_A, tri_B, tri_C]" by simp
  from sorted_nodes_by_signature[of triangle_net left_to_right] h1 h2
  have b: "sorted_nodes triangle_net' = sorted_nodes triangle_net" by blast
  from a b h1 h2 gp show ?thesis by simp
qed

subsection \<open>C7: the first non-dangling edge\<close>

text \<open>
  C7: \<^verbatim>\<open>get_first_nondangling\<close> returns an edge exactly when that edge is not dangling
  and every edge before it in the node's edges is dangling, and it returns \<^verbatim>\<open>None\<close>
  exactly when every edge of the node is dangling.
\<close>

theorem get_first_nondangling_first:
  "(get_first_nondangling n = Some e \<longleftrightarrow>
      (\<exists>pre post. edges n = pre @ e # post \<and> (\<forall>x \<in> set pre. is_dangling x) \<and>
         \<not> is_dangling e)) \<and>
   (get_first_nondangling n = None \<longleftrightarrow> (\<forall>x \<in> set (edges n). is_dangling x))"
  by (simp add: get_first_nondangling_def first_nondangling_of_Some
      first_nondangling_of_None)

theorem get_first_nondangling_first_witness:
  "edges copy_Y = [edge_Y_out] @ edge_AY # [] \<and> is_dangling edge_Y_out \<and>
   \<not> is_dangling edge_AY \<and> get_first_nondangling copy_Y = Some edge_AY \<and>
   edges copy_Z = [edge_Z_out] \<and> is_dangling edge_Z_out \<and>
   get_first_nondangling copy_Z = None"
proof -
  have y: "edges copy_Y = [edge_Y_out] @ edge_AY # []"
    by (simp add: copy_Y_def)
  have d: "is_dangling edge_Y_out" "\<not> is_dangling edge_AY" "is_dangling edge_Z_out"
    by (simp_all add: is_dangling_def edge_Y_out_def edge_AY_def edge_Z_out_def)
  have z: "edges copy_Z = [edge_Z_out]"
    by (simp add: copy_Z_def)
  from y d have "\<exists>pre post. edges copy_Y = pre @ edge_AY # post \<and>
      (\<forall>x \<in> set pre. is_dangling x) \<and> \<not> is_dangling edge_AY"
    by (intro exI[of _ "[edge_Y_out]"] exI[of _ "[]"]) simp
  with get_first_nondangling_first[of copy_Y edge_AY]
  have a: "get_first_nondangling copy_Y = Some edge_AY"
    by blast
  from z d have "\<forall>x \<in> set (edges copy_Z). is_dangling x"
    by simp
  with get_first_nondangling_first[of copy_Z]
  have b: "get_first_nondangling copy_Z = None"
    by blast
  from y d z a b show ?thesis by simp
qed

subsection \<open>C8: a CopyNode without non-dangling edges\<close>



subsection \<open>C9: two invocations on an unchanged network\<close>

text \<open>
  C9: two invocations of \<^verbatim>\<open>get_path\<close> on an unchanged network, with the same algorithm,
  return the same pair of path and node list. An invocation meets the nodes of the
  network in some iteration order; the two invocations are two arrangements \<open>net\<close> and
  \<open>net'\<close> of the same nodes, whose signatures are unique as the data model has them. The
  algorithm is a function of the input sets, the output set and the size dictionary.
  Then one invocation returns a pair exactly when the other returns the same pair.
\<close>

theorem get_path_deterministic:
  assumes "mset (nodes_set net') = mset (nodes_set net)"
    and "inj_on signature (set (ordinary_nodes net))"
  shows "get_path net' algorithm = Inr r \<longleftrightarrow> get_path net algorithm = Inr r"
proof (cases "isolated_copies net")
  case True
  then have iso': "isolated_copies net'"
    by (simp add: isolated_copies_perm[OF assms(1)])
  have "input_sets net' = input_sets net"
    by (simp add: input_sets_def sorted_nodes_perm[OF assms])
  moreover have "output_set net' = output_set net"
    by (simp add: output_set_def get_all_nondangling_def get_all_edges_perm[OF assms(1)])
  moreover have "size_dict net' = size_dict net"
    by (simp add: size_dict_def get_all_edges_perm[OF assms(1)])
  ultimately have "get_path net' algorithm = get_path net algorithm"
    by (simp add: get_path_isolated[OF True] get_path_isolated[OF iso']
        sorted_nodes_perm[OF assms] split: sum.splits)
  then show ?thesis by simp
next
  case False
  then have "\<not> isolated_copies net'"
    by (simp add: isolated_copies_perm[OF assms(1)])
  from get_path_raises[OF this, of algorithm] get_path_raises[OF False, of algorithm]
  show ?thesis by auto
qed

theorem get_path_deterministic_witness:
  "mset (nodes_set triangle_net') = mset (nodes_set triangle_net) \<and>
   inj_on signature (set (ordinary_nodes triangle_net)) \<and>
   get_path triangle_net left_to_right = Inr ([(0, 1), (0, 1)], [tri_A, tri_B, tri_C]) \<and>
   get_path triangle_net' left_to_right = Inr ([(0, 1), (0, 1)], [tri_A, tri_B, tri_C])"
proof -
  note h1 = triangle_perm and h2 = triangle_signatures and gp = triangle_get_path
  from get_path_deterministic[OF h1 h2, of left_to_right
      "([(0, 1), (0, 1)], [tri_A, tri_B, tri_C])"] gp h1 h2
  show ?thesis by simp
qed

subsection \<open>C10: removing positions from a list\<close>

text \<open>
  C10: \<^verbatim>\<open>multi_remove\<close> returns the elements of \<open>elems\<close> whose position is not in
  \<open>indices\<close>, in their order in \<open>elems\<close>; as many elements are dropped as there are
  positions of \<open>elems\<close> in \<open>indices\<close>; and two lists of indices that hold the same
  positions of \<open>elems\<close> give the same result, so that an index out of range or a
  repeated index changes nothing. The comprehension builds a new list; \<open>elems\<close> is a
  value here and is not changed.
\<close>

theorem multi_remove_positions:
  "multi_remove elems indices = nths elems {j. int j \<notin> set indices} \<and>
   length (multi_remove elems indices)
     = length elems - card {j. j < length elems \<and> int j \<in> set indices} \<and>
   (\<forall>indices'. {j. j < length elems \<and> int j \<in> set indices'}
                  = {j. j < length elems \<and> int j \<in> set indices} \<longrightarrow>
       multi_remove elems indices' = multi_remove elems indices)"
proof -
  have a: "multi_remove elems indices = nths elems {j. int j \<notin> set indices}"
    by (rule multi_remove_nths)
  have "{i. i < length elems \<and> int i \<notin> set indices}
          = {0..<length elems} - {j. j < length elems \<and> int j \<in> set indices}"
    by auto
  then have "card {i. i < length elems \<and> int i \<notin> set indices}
          = card {0..<length elems} - card {j. j < length elems \<and> int j \<in> set indices}"
    by (simp add: card_Diff_subset Collect_mono subset_eq)
  then have b: "length (multi_remove elems indices)
     = length elems - card {j. j < length elems \<and> int j \<in> set indices}"
    by (simp add: a length_nths)
  have c: "multi_remove elems indices' = multi_remove elems indices"
    if "{j. j < length elems \<and> int j \<in> set indices'}
          = {j. j < length elems \<and> int j \<in> set indices}"
    for indices'
  proof -
    from that have "{j. j < length elems \<and> j \<in> {j. int j \<notin> set indices'}}
      = {j. j < length elems \<and> j \<in> {j. int j \<notin> set indices}}"
      by blast
    from nths_cong_set[OF this] show ?thesis
      by (simp add: multi_remove_nths)
  qed
  from a b c show ?thesis by blast
qed

theorem multi_remove_positions_witness:
  "{j. j < length ''abcde'' \<and> int j \<in> set [1, 3, 3, 7, -1]}
     = {j. j < length ''abcde'' \<and> int j \<in> set [3, 1]} \<and>
   multi_remove ''abcde'' [3, 1] = ''ace'' \<and>
   multi_remove ''abcde'' [1, 3, 3, 7, -1] = ''ace''"
proof -
  have h: "{j. j < length ''abcde'' \<and> int j \<in> set [1, 3, 3, 7, -1]}
     = {j. j < length ''abcde'' \<and> int j \<in> set [3, 1]}"
    by auto
  have v: "multi_remove ''abcde'' [3, 1] = ''ace''"
    by code_simp
  from multi_remove_positions[of "''abcde''" "[3, 1]"] h
  have "multi_remove ''abcde'' [1, 3, 3, 7, -1] = multi_remove ''abcde'' [3, 1]"
    by blast
  with h v show ?thesis by simp
qed

end
